theory Spec2Isabelle
  imports Main "HOL-Library.Sublist"
begin

section \<open>The snippet prompt of \<open>src/index.ts\<close>\<close>

text \<open>
  The prompt is a function of a configuration and the cells created by \<open>useState\<close>.
  A key press runs \<open>userHandler\<close> once on the cells of the latest render; every setter
  call of that run is visible at the next render only, so one run is a function from
  the old cells to the new ones. The frame is a pure function of the cells.
\<close>

subsection \<open>JavaScript values\<close>

text \<open>
  A string is a list of characters, and a character outside ASCII is the sequence of its
  UTF-8 bytes.

  \<open>activeFieldIndex\<close> is a JavaScript number. It is an integer in every state the prompt
  reaches, except that \<open>(activeFieldIndex + 1) % fieldNames.length\<close> is \<open>NaN\<close> when the
  configuration has no field.
\<close>

datatype jsnum = Num int | NaN

fun num_plus :: "jsnum \<Rightarrow> int \<Rightarrow> jsnum" where
  "num_plus (Num i) k = Num (i + k)"
| "num_plus NaN k = NaN"

fun math_max :: "int \<Rightarrow> jsnum \<Rightarrow> jsnum" where
  "math_max a (Num b) = Num (max a b)"
| "math_max a NaN = NaN"

fun math_min :: "int \<Rightarrow> jsnum \<Rightarrow> jsnum" where
  "math_min a (Num b) = Num (min a b)"
| "math_min a NaN = NaN"

text \<open>The remainder operator \<open>%\<close>: the sign of the dividend, \<open>NaN\<close> for a zero divisor.\<close>

fun js_rem :: "jsnum \<Rightarrow> int \<Rightarrow> jsnum" where
  "js_rem (Num a) n = (if n = 0 then NaN else Num (sgn a * (\<bar>a\<bar> mod \<bar>n\<bar>)))"
| "js_rem NaN n = NaN"

text \<open>Truthiness of a \<open>string | null | undefined\<close>: the empty string is falsy.\<close>

fun truthy :: "string option \<Rightarrow> bool" where
  "truthy None = False"
| "truthy (Some s) = (s \<noteq> [])"

text \<open>\<open>x || ""\<close> for a \<open>string | undefined\<close>.\<close>

fun or_empty :: "string option \<Rightarrow> string" where
  "or_empty None = []"
| "or_empty (Some s) = s"

text \<open>\<open>xs[i]\<close> for a number \<open>i\<close>: \<open>undefined\<close> out of range and at \<open>NaN\<close>.\<close>

fun int_index :: "'a list \<Rightarrow> int \<Rightarrow> 'a option" where
  "int_index xs i = (if 0 \<le> i \<and> i < int (length xs) then Some (xs ! nat i) else None)"

fun js_index :: "'a list \<Rightarrow> jsnum \<Rightarrow> 'a option" where
  "js_index xs (Num i) = int_index xs i"
| "js_index xs NaN = None"

text \<open>\<open>Array.prototype.findIndex\<close>: the first position that satisfies, or \<open>-1\<close>.\<close>

fun findIndex :: "('a \<Rightarrow> bool) \<Rightarrow> 'a list \<Rightarrow> int" where
  "findIndex P [] = - 1"
| "findIndex P (x # xs) =
     (if P x then 0 else (let r = findIndex P xs in if r < 0 then - 1 else r + 1))"

subsection \<open>Configuration (\<open>types.ts\<close>)\<close>

record SelectOption =
  opt_name :: string
  opt_value :: string

text \<open>An entry of \<open>options\<close> is a bare string or a \<open>SelectOption\<close>.\<close>

datatype raw_option = Label string | Pair SelectOption

record SnippetField =
  message :: "string option"
  initial :: "string option"
  required :: "bool option"
  options :: "raw_option list option"

text \<open>A \<open>ValidationFunction\<close> returns \<open>string | boolean\<close>.\<close>

datatype validation = Bool bool | Str string

text \<open>
  \<open>config.fields\<close> is an object: its entries are kept as an association list in the order
  \<open>Object.keys\<close> returns them, and \<open>config.fields[name]\<close> is \<open>map_of\<close>.
\<close>

record SnippetConfig =
  prompt_message :: string
  template :: string
  config_fields :: "(string \<times> SnippetField) list"
  validate :: "((string \<rightharpoonup> string) \<Rightarrow> validation) option"

subsection \<open>The cells of the prompt\<close>

datatype Status = Idle | Loading | Done

text \<open>
  \<open>resolved\<close> records the call \<open>done(values)\<close>, which resolves the promise of the prompt.
  The host delivers no key after that call; the handler is defined on every state all
  the same.
\<close>

record prompt_state =
  status :: Status
  errorMsg :: "string option"
  "values" :: "string \<rightharpoonup> string"
  activeFieldIndex :: jsnum
  editingField :: "string option"
  fieldInput :: string
  cursorPosition :: nat
  selectingField :: "string option"
  selectedOptionIndex :: int
  resolved :: "(string \<rightharpoonup> string) option"

definition fieldNames :: "SnippetConfig \<Rightarrow> string list" where
  "fieldNames config = map fst (config_fields config)"

definition initialValues :: "SnippetConfig \<Rightarrow> (string \<rightharpoonup> string)" where
  "initialValues config =
     fold (\<lambda>name m. m(name \<mapsto>
             or_empty (case map_of (config_fields config) name of None \<Rightarrow> None | Some f \<Rightarrow> initial f)))
          (fieldNames config) Map.empty"

definition init :: "SnippetConfig \<Rightarrow> prompt_state" where
  "init config =
     \<lparr> status = Idle, errorMsg = None, values = initialValues config,
       activeFieldIndex = Num 0, editingField = None, fieldInput = [],
       cursorPosition = 0, selectingField = None, selectedOptionIndex = 0,
       resolved = None \<rparr>"

subsection \<open>Helpers of the prompt\<close>

fun normalizeOption :: "raw_option \<Rightarrow> SelectOption" where
  "normalizeOption (Label s) = \<lparr> opt_name = s, opt_value = s \<rparr>"
| "normalizeOption (Pair p) = p"

definition normalizeOptions :: "raw_option list \<Rightarrow> SelectOption list" where
  "normalizeOptions os = map normalizeOption os"

text \<open>\<open>field?.options || []\<close>: an array is truthy, also the empty one.\<close>

definition options_or_empty :: "SnippetField option \<Rightarrow> raw_option list" where
  "options_or_empty field =
     (case field of None \<Rightarrow> []
      | Some f \<Rightarrow> (case options f of None \<Rightarrow> [] | Some os \<Rightarrow> os))"

definition isSelectField :: "SnippetConfig \<Rightarrow> string \<Rightarrow> bool" where
  "isSelectField config fieldName =
     (case map_of (config_fields config) fieldName of None \<Rightarrow> False
      | Some f \<Rightarrow> (case options f of None \<Rightarrow> False | Some os \<Rightarrow> length os > 0))"

subsection \<open>Key events\<close>

text \<open>
  The handler tests a key with \<open>key.ctrl && key.name === "s"\<close>, \<open>isEnterKey\<close>,
  \<open>key.name === "escape"\<close>, \<open>isUpKey\<close>, \<open>isDownKey\<close> and \<open>key.name === "tab"\<close>. The tests
  look at different key names, so at most one holds of a key, and a key is modelled by
  the test it passes.
\<close>

datatype KeypressEvent = CtrlS | EnterKey | EscapeKey | UpKey | DownKey | TabKey | OtherKey

subsection \<open>\<open>userHandler\<close>\<close>

text \<open>
  The handler has one branch for each mode; each branch is a function here, and
  \<open>userHandler\<close> chooses among them as the source does. \<open>rl_line\<close> is \<open>rl.line\<close>, the text
  of the line editor when the handler runs. The line editor itself (\<open>rl.write\<close>, the
  assignment to \<open>rl.line\<close>) belongs to the host.
\<close>

definition selectingHandler ::
  "SnippetConfig \<Rightarrow> string \<Rightarrow> KeypressEvent \<Rightarrow> prompt_state \<Rightarrow> prompt_state" where
  "selectingHandler config sf key st =
     (let opts = normalizeOptions (options_or_empty (map_of (config_fields config) sf)) in
      if key = EnterKey then
        (case int_index opts (selectedOptionIndex st) of
           Some selectedOption \<Rightarrow>
             st\<lparr> values := (values st)(sf \<mapsto> opt_value selectedOption),
                 selectingField := None, selectedOptionIndex := 0 \<rparr>
         | None \<Rightarrow> st\<lparr> selectingField := None, selectedOptionIndex := 0 \<rparr>)
      else if key = EscapeKey then
        st\<lparr> selectingField := None, selectedOptionIndex := 0 \<rparr>
      else if key = UpKey then
        st\<lparr> selectedOptionIndex := max 0 (selectedOptionIndex st - 1) \<rparr>
      else if key = DownKey then
        st\<lparr> selectedOptionIndex := min (int (length opts) - 1) (selectedOptionIndex st + 1) \<rparr>
      else st)"

definition editingHandler ::
  "string \<Rightarrow> KeypressEvent \<Rightarrow> string \<Rightarrow> prompt_state \<Rightarrow> prompt_state" where
  "editingHandler ef key rl_line st =
     (if key = EnterKey then
        st\<lparr> values := (values st)(ef \<mapsto> fieldInput st),
            editingField := None, fieldInput := [], cursorPosition := 0 \<rparr>
      else if key = EscapeKey then
        st\<lparr> editingField := None, fieldInput := [], cursorPosition := 0 \<rparr>
      else
        st\<lparr> fieldInput := rl_line, cursorPosition := length rl_line \<rparr>)"

text \<open>
  The handler of ctrl+s. Its first call \<open>setStatus("loading")\<close> is overwritten by the
  \<open>setStatus\<close> of the branch taken, in the same run.
\<close>

definition submit :: "SnippetConfig \<Rightarrow> prompt_state \<Rightarrow> prompt_state" where
  "submit config st =
     (let isValid = (case validate config of None \<Rightarrow> Bool True | Some f \<Rightarrow> f (values st)) in
      if isValid = Bool True then
        st\<lparr> status := Done, resolved := Some (values st) \<rparr>
      else
        st\<lparr> errorMsg := Some (case isValid of Str s \<Rightarrow> s
                                | Bool b \<Rightarrow> ''Invalid values provided''),
            status := Idle \<rparr>)"

text \<open>The handler of Enter in navigating mode.\<close>

definition openField :: "SnippetConfig \<Rightarrow> prompt_state \<Rightarrow> prompt_state" where
  "openField config st =
     (let fieldName = js_index (fieldNames config) (activeFieldIndex st) in
      if truthy fieldName then
        (let fname = or_empty fieldName in
         if isSelectField config fname then
           (let opts = normalizeOptions (options_or_empty (map_of (config_fields config) fname));
                currentValue = or_empty (values st fname);
                currentIndex = findIndex (\<lambda>opt. opt_value opt = currentValue) opts
            in st\<lparr> selectingField := Some fname,
                    selectedOptionIndex := (if currentIndex \<ge> 0 then currentIndex else 0) \<rparr>)
         else
           (let currentValue = or_empty (values st fname)
            in st\<lparr> editingField := Some fname, fieldInput := currentValue,
                    cursorPosition := length currentValue \<rparr>))
      else st)"

definition navigatingHandler ::
  "SnippetConfig \<Rightarrow> KeypressEvent \<Rightarrow> prompt_state \<Rightarrow> prompt_state" where
  "navigatingHandler config key st =
     (if key = CtrlS then submit config st
      else if key = EnterKey then openField config st
      else if key = UpKey then
        st\<lparr> activeFieldIndex := math_max 0 (num_plus (activeFieldIndex st) (- 1)) \<rparr>
      else if key = DownKey then
        st\<lparr> activeFieldIndex :=
              math_min (int (length (fieldNames config)) - 1) (num_plus (activeFieldIndex st) 1) \<rparr>
      else if key = TabKey then
        st\<lparr> activeFieldIndex :=
              js_rem (num_plus (activeFieldIndex st) 1) (int (length (fieldNames config))) \<rparr>
      else st)"

definition userHandler ::
  "SnippetConfig \<Rightarrow> KeypressEvent \<times> string \<Rightarrow> prompt_state \<Rightarrow> prompt_state" where
  "userHandler config ev st =
     (if truthy (selectingField st) then
        selectingHandler config (or_empty (selectingField st)) (fst ev) st
      else if truthy (editingField st) then
        editingHandler (or_empty (editingField st)) (fst ev) (snd ev) st
      else navigatingHandler config (fst ev) st)"

text \<open>A sequence of key presses, the first one first.\<close>

definition presses ::
  "SnippetConfig \<Rightarrow> (KeypressEvent \<times> string) list \<Rightarrow> prompt_state \<Rightarrow> prompt_state" where
  "presses config evs st = fold (userHandler config) evs st"

text \<open>Navigating mode is the last branch of the handler: no field is selected or edited.\<close>

definition navigating :: "prompt_state \<Rightarrow> bool" where
  "navigating st = (\<not> truthy (selectingField st) \<and> \<not> truthy (editingField st))"

subsection \<open>The theme\<close>

text \<open>
  \<open>makeTheme\<close> lays the four style functions of \<open>snippetTheme\<close> over the theme of the
  host, which brings \<open>style.message\<close>, \<open>style.key\<close>, \<open>style.help\<close>, \<open>style.error\<close> and the
  prefix of \<open>usePrefix\<close>; the functions of the host are parameters.
\<close>

record Theme =
  style_field :: "string \<Rightarrow> string"
  style_activeField :: "string \<Rightarrow> string"
  style_placeholder :: "string \<Rightarrow> string"
  style_activePlaceholder :: "string \<Rightarrow> string"
  style_message :: "string \<Rightarrow> Status \<Rightarrow> string"
  style_key :: "string \<Rightarrow> string"
  style_help :: "string \<Rightarrow> string"
  style_error :: "string \<Rightarrow> string"
  usePrefix :: "Status \<Rightarrow> string"

definition inverse_on :: string where "inverse_on = CHR 0x1B # ''[7m''"
definition inverse_off :: string where "inverse_off = CHR 0x1B # ''[27m''"
definition dim_on :: string where "dim_on = CHR 0x1B # ''[2m''"
definition dim_off :: string where "dim_off = CHR 0x1B # ''[22m''"

definition snippetTheme :: "Theme \<Rightarrow> Theme" where
  "snippetTheme host =
     host\<lparr> style_field := (\<lambda>text. text),
           style_activeField := (\<lambda>text. inverse_on @ text @ inverse_off),
           style_placeholder := (\<lambda>text. dim_on @ text @ dim_off),
           style_activePlaceholder :=
             (\<lambda>text. inverse_on @ dim_on @ text @ dim_off @ inverse_off) \<rparr>"

subsection \<open>\<open>String.prototype.replace\<close> with a global regular expression\<close>

text \<open>
  The source builds two regular expressions: the character class
  \<open>/[.*+?^${}()|[\]\\]/g\<close> and \<open>new RegExp(source, "g")\<close> from an escaped placeholder. A
  pattern is a character class or a literal text. \<open>RegExp\<close> reads a source made of
  characters that are not syntax characters and of syntax characters after a
  backslash, each of which matches itself; on any other source it gives \<open>None\<close>.
\<close>

datatype pattern = Literal string | OneOf "char list"

definition backslash :: char where "backslash = CHR 0x5C"

definition syntaxCharacters :: "char list" where
  "syntaxCharacters = ''.*+?^${}()|[]'' @ [backslash]"

fun pattern_text :: "string \<Rightarrow> string option" where
  "pattern_text [] = Some []"
| "pattern_text (c # r) =
     (if c = backslash then
        (case r of [] \<Rightarrow> None
         | d # r' \<Rightarrow> if d \<in> set syntaxCharacters
                     then map_option ((#) d) (pattern_text r') else None)
      else if c \<in> set syntaxCharacters then None
      else map_option ((#) c) (pattern_text r))"

definition RegExp :: "string \<Rightarrow> pattern option" where
  "RegExp source = map_option Literal (pattern_text source)"

text \<open>The length of the match that starts at the head of the text, if there is one.\<close>

fun match_at :: "pattern \<Rightarrow> string \<Rightarrow> nat option" where
  "match_at (Literal p) s = (if prefix p s then Some (length p) else None)"
| "match_at (OneOf cs) [] = None"
| "match_at (OneOf cs) (c # s) = (if c \<in> set cs then Some 1 else None)"

text \<open>
  The replacement text is a template: \<open>$$\<close> is a dollar sign, \<open>$&\<close> the matched text,
  \<open>$`\<close> the text before the match and \<open>$'\<close> the text after it. The patterns have no
  capture group, so \<open>$1\<close> and \<open>$<\<close> stand for themselves.
\<close>

fun getSubstitution :: "string \<Rightarrow> string \<Rightarrow> string \<Rightarrow> string \<Rightarrow> string" where
  "getSubstitution matched preceding following [] = []"
| "getSubstitution matched preceding following [c] = [c]"
| "getSubstitution matched preceding following (c # d # r) =
     (if c = CHR ''$'' \<and> d = CHR ''$'' then CHR ''$'' # getSubstitution matched preceding following r
      else if c = CHR ''$'' \<and> d = CHR ''&'' then matched @ getSubstitution matched preceding following r
      else if c = CHR ''$'' \<and> d = CHR 0x60 then preceding @ getSubstitution matched preceding following r
      else if c = CHR ''$'' \<and> d = CHR 0x27 then following @ getSubstitution matched preceding following r
      else c # getSubstitution matched preceding following (d # r))"

text \<open>
  The scan goes from left to right; after a match it goes on behind the match, and
  behind the next character when the match is empty. \<open>preceding\<close> is the text already
  passed.
\<close>

function replace_from :: "pattern \<Rightarrow> string \<Rightarrow> string \<Rightarrow> string \<Rightarrow> string" where
  "replace_from p r preceding [] =
     (case match_at p [] of None \<Rightarrow> [] | Some n \<Rightarrow> getSubstitution [] preceding [] r)"
| "replace_from p r preceding (c # cs) =
     (case match_at p (c # cs) of
        None \<Rightarrow> c # replace_from p r (preceding @ [c]) cs
      | Some n \<Rightarrow>
          if n = 0 then
            getSubstitution [] preceding (c # cs) r @ c # replace_from p r (preceding @ [c]) cs
          else
            getSubstitution (take n (c # cs)) preceding (drop n (c # cs)) r
              @ replace_from p r (preceding @ take n (c # cs)) (drop n (c # cs)))"
  by pat_completeness auto
termination
  by (relation "measure (\<lambda>(p, r, preceding, s). length s)") auto

definition js_replace :: "string \<Rightarrow> pattern \<Rightarrow> string \<Rightarrow> string" where
  "js_replace s p r = replace_from p r [] s"

subsection \<open>\<open>renderSnippet\<close>\<close>

definition placeholder_of :: "string \<Rightarrow> string" where
  "placeholder_of fieldName = ''{{'' @ fieldName @ ''}}''"

text \<open>\<open>placeholder.replace(/[.*+?^${}()|[\]\\]/g, "\\$&")\<close>\<close>

definition escapeRegExp :: "string \<Rightarrow> string" where
  "escapeRegExp s = js_replace s (OneOf syntaxCharacters) (backslash # ''$&'')"

definition displayValue ::
  "SnippetConfig \<Rightarrow> Theme \<Rightarrow> prompt_state \<Rightarrow> nat \<Rightarrow> string \<Rightarrow> string" where
  "displayValue config theme st index fieldName =
     (let field = map_of (config_fields config) fieldName;
          val = (if editingField st = Some fieldName then fieldInput st
                 else or_empty (values st fieldName));
          isActive = (Num (int index) = activeFieldIndex st \<and> \<not> truthy (editingField st)
                      \<and> \<not> truthy (selectingField st));
          isSelecting = (selectingField st = Some fieldName);
          isEditing = (editingField st = Some fieldName)
      in
      if val \<noteq> [] then
        (if isEditing then
           (let beforeCursor = take (cursorPosition st) val;
                atCursor = (let c = take 1 (drop (cursorPosition st) val)
                            in if c = [] then '' '' else c);
                afterCursor = drop (cursorPosition st + 1) val
            in beforeCursor @ inverse_on @ atCursor @ inverse_off @ afterCursor)
         else if isSelecting then inverse_on @ val @ inverse_off
         else if isActive then style_activeField theme val else style_field theme val)
      else
        (let msg = (case field of None \<Rightarrow> None | Some f \<Rightarrow> message f);
             placeholderText = (if truthy msg then or_empty msg else fieldName)
         in
         if isEditing then inverse_on @ '' '' @ inverse_off
         else if isSelecting then inverse_on @ dim_on @ placeholderText @ dim_off @ inverse_off
         else if isActive then style_activePlaceholder theme placeholderText
         else style_placeholder theme placeholderText))"

text \<open>The body of the loop over the field names: one global replacement.\<close>

definition substitute ::
  "SnippetConfig \<Rightarrow> Theme \<Rightarrow> prompt_state \<Rightarrow> nat \<times> string \<Rightarrow> string \<Rightarrow> string option" where
  "substitute config theme st entry rendered =
     (case RegExp (escapeRegExp (placeholder_of (snd entry))) of
        None \<Rightarrow> None
      | Some re \<Rightarrow>
          Some (js_replace rendered re (displayValue config theme st (fst entry) (snd entry))))"

definition renderSnippet :: "SnippetConfig \<Rightarrow> Theme \<Rightarrow> prompt_state \<Rightarrow> string option" where
  "renderSnippet config theme st =
     fold (\<lambda>entry acc. case acc of None \<Rightarrow> None
                         | Some rendered \<Rightarrow> substitute config theme st entry rendered)
          (enumerate 0 (fieldNames config)) (Some (template config))"

subsection \<open>The frame\<close>

fun join :: "string \<Rightarrow> string list \<Rightarrow> string" where
  "join sep [] = []"
| "join sep [x] = x"
| "join sep (x # y # xs) = x @ sep @ join sep (y # xs)"

definition newline :: string where "newline = [CHR 0x0A]"

text \<open>The pointer of the selected option, U+276F and a space, in UTF-8.\<close>

definition pointer :: string where "pointer = [CHR 0xE2, CHR 0x9D, CHR 0xAF, CHR 0x20]"

text \<open>The label of the arrow keys, U+2191 and U+2193, in UTF-8.\<close>

definition arrows :: string where
  "arrows = [CHR 0xE2, CHR 0x86, CHR 0x91, CHR 0xE2, CHR 0x86, CHR 0x93]"

definition renderSelectOptions :: "SnippetConfig \<Rightarrow> prompt_state \<Rightarrow> string" where
  "renderSelectOptions config st =
     (if \<not> truthy (selectingField st) then []
      else
        (let opts = normalizeOptions
                      (options_or_empty (map_of (config_fields config) (or_empty (selectingField st))))
         in join newline
              (map (\<lambda>(index, opt).
                      if int index = selectedOptionIndex st
                      then pointer @ inverse_on @ opt_name opt @ inverse_off
                      else ''  '' @ opt_name opt)
                   (enumerate 0 opts))))"

definition helpText :: "Theme \<Rightarrow> prompt_state \<Rightarrow> string" where
  "helpText theme st =
     (if truthy (selectingField st) then
        style_help theme
          (''Selecting '' @ or_empty (selectingField st) @ '' - '' @ style_key theme arrows
             @ '' to navigate, '' @ style_key theme ''enter'' @ '' to select, ''
             @ style_key theme ''esc'' @ '' to cancel'')
      else if truthy (editingField st) then
        style_help theme
          (''Editing '' @ or_empty (editingField st) @ '' - Press '' @ style_key theme ''enter''
             @ '' to save, '' @ style_key theme ''esc'' @ '' to cancel'')
      else
        style_help theme
          (style_key theme ''enter'' @ '' to edit, '' @ style_key theme arrows
             @ '' to navigate, '' @ style_key theme ''ctrl+s'' @ '' to submit''))"

text \<open>\<open>let error = ""; if (errorMsg) { error = theme.style.error(errorMsg); }\<close>\<close>

definition errorLine :: "Theme \<Rightarrow> prompt_state \<Rightarrow> string" where
  "errorLine theme st =
     (if truthy (errorMsg st) then style_error theme (or_empty (errorMsg st)) else [])"

text \<open>The two parts of the frame: \<open>[output, content]\<close>.\<close>

definition frame_output :: "SnippetConfig \<Rightarrow> Theme \<Rightarrow> prompt_state \<Rightarrow> string" where
  "frame_output config theme st =
     join '' '' (filter (\<lambda>s. s \<noteq> [])
       [usePrefix theme (status st), style_message theme (prompt_message config) (status st)])"

definition frame_content :: "SnippetConfig \<Rightarrow> Theme \<Rightarrow> prompt_state \<Rightarrow> string option" where
  "frame_content config theme st =
     (case renderSnippet config theme st of
        None \<Rightarrow> None
      | Some snippet \<Rightarrow>
          Some (join newline (filter (\<lambda>s. s \<noteq> [])
                  [snippet, renderSelectOptions config st, helpText theme st,
                   errorLine theme st])))"

subsection \<open>Example configurations\<close>

text \<open>A host theme without decoration.\<close>

definition plainHost :: Theme where
  "plainHost =
     \<lparr> style_field = (\<lambda>text. text), style_activeField = (\<lambda>text. text),
       style_placeholder = (\<lambda>text. text), style_activePlaceholder = (\<lambda>text. text),
       style_message = (\<lambda>text st. text), style_key = (\<lambda>text. text),
       style_help = (\<lambda>text. text), style_error = (\<lambda>text. text),
       usePrefix = (\<lambda>st. ''?'') \<rparr>"

definition textField :: "string option \<Rightarrow> string option \<Rightarrow> SnippetField" where
  "textField msg ini = \<lparr> message = msg, initial = ini, required = None, options = None \<rparr>"

definition selectField :: "string option \<Rightarrow> raw_option list \<Rightarrow> SnippetField" where
  "selectField ini os = \<lparr> message = None, initial = ini, required = None, options = Some os \<rparr>"

definition helloConfig :: SnippetConfig where
  "helloConfig =
     \<lparr> prompt_message = ''Submit form'', template = ''Hello {{name}}!'',
       config_fields = [(''name'', textField (Some ''Your name'') (Some ''World''))],
       validate = None \<rparr>"

definition nameRequired :: "(string \<rightharpoonup> string) \<Rightarrow> validation" where
  "nameRequired vals =
     (if or_empty (vals ''name'') \<noteq> [] then Bool True else Str ''Name is required'')"

definition nameNonEmpty :: "(string \<rightharpoonup> string) \<Rightarrow> validation" where
  "nameNonEmpty vals = Bool (or_empty (vals ''name'') \<noteq> [])"

definition silentValidator :: "(string \<rightharpoonup> string) \<Rightarrow> validation" where
  "silentValidator vals = Str []"

definition nameConfig ::
  "((string \<rightharpoonup> string) \<Rightarrow> validation) \<Rightarrow> string \<Rightarrow> SnippetConfig" where
  "nameConfig f ini =
     \<lparr> prompt_message = ''Validation'', template = ''Name: {{name}}'',
       config_fields = [(''name'', textField (Some ''Your name'') (Some ini))],
       validate = Some f \<rparr>"

definition colorConfig :: SnippetConfig where
  "colorConfig =
     \<lparr> prompt_message = ''Select a color'', template = ''Color: {{color}}, by {{name}}'',
       config_fields =
         [(''color'', selectField (Some ''green'') [Label ''red'', Label ''green'', Label ''blue'']),
          (''name'', textField None None)],
       validate = None \<rparr>"

definition namelessSelectConfig :: SnippetConfig where
  "namelessSelectConfig =
     \<lparr> prompt_message = ''Nameless'', template = ''Choice: {{}}'',
       config_fields = [([], selectField None [Label ''yes'', Label ''no''])],
       validate = None \<rparr>"



definition threeFields :: SnippetConfig where
  "threeFields =
     \<lparr> prompt_message = ''Configure'', template = ''{{field1}} {{field2}} {{field3}}'',
       config_fields =
         [(''field1'', textField (Some ''Field 1'') None),
          (''field2'', textField (Some ''Field 2'') None),
          (''field3'', textField None (Some ''value''))],
       validate = None \<rparr>"

definition plusConfig :: SnippetConfig where
  "plusConfig =
     \<lparr> prompt_message = ''Regex special chars'', template = ''{{field+plus}}!'',
       config_fields = [(''field+plus'', textField None (Some ''$&''))],
       validate = None \<rparr>"

definition nestedConfig :: SnippetConfig where
  "nestedConfig =
     \<lparr> prompt_message = ''Greeting'', template = ''Hello {{greeting}}'',
       config_fields =
         [(''greeting'', textField None (Some ''dear {{name}}'')),
          (''name'', textField None (Some ''Ann''))],
       validate = None \<rparr>"

text \<open>A failed submit, then the name is typed and committed.\<close>

definition retryKeys :: "(KeypressEvent \<times> string) list" where
  "retryKeys = [(CtrlS, []), (EnterKey, []), (OtherKey, ''Ann''), (EnterKey, ''Ann'')]"

section \<open>Properties\<close>

subsection \<open>Modes\<close>

lemma navigating_userHandler:
  "navigating st \<Longrightarrow> userHandler config ev st = navigatingHandler config (fst ev) st"
  by (simp add: userHandler_def navigating_def)

lemma navigating_init: "navigating (init config)"
  by (simp add: navigating_def init_def)

lemma nameConfig_validate: "validate (nameConfig f ini) = Some f"
  by (simp add: nameConfig_def)

lemma nameConfig_init_value: "values (init (nameConfig f ini)) ''name'' = Some ini"
  by (simp add: init_def nameConfig_def initialValues_def fieldNames_def textField_def)

subsection \<open>The pattern of a placeholder\<close>

lemma backslash_syntax: "backslash \<in> set syntaxCharacters"
  by (simp add: syntaxCharacters_def)

lemma getSubstitution_escape:
  "getSubstitution [c] preceding following (backslash # ''$&'') = [backslash, c]"
  by (simp add: backslash_def)

lemma replace_from_class:
  "replace_from (OneOf cs) (backslash # ''$&'') preceding s
     = concat (map (\<lambda>c. if c \<in> set cs then [backslash, c] else [c]) s)"
proof (induction s arbitrary: preceding)
  case Nil
  then show ?case by simp
next
  case (Cons c s)
  then show ?case by (simp add: getSubstitution_escape del: getSubstitution.simps)
qed

lemma escapeRegExp_concat:
  "escapeRegExp s
     = concat (map (\<lambda>c. if c \<in> set syntaxCharacters then [backslash, c] else [c]) s)"
  by (simp add: escapeRegExp_def js_replace_def replace_from_class)

lemma pattern_text_escaped:
  "pattern_text (concat (map (\<lambda>c. if c \<in> set syntaxCharacters then [backslash, c] else [c]) s))
     = Some s"
proof (induction s)
  case Nil
  then show ?case by simp
next
  case (Cons c s)
  show ?case
  proof (cases "c \<in> set syntaxCharacters")
    case True
    then show ?thesis using Cons.IH by simp
  next
    case False
    then have "c \<noteq> backslash" using backslash_syntax by auto
    then show ?thesis using False Cons.IH by simp
  qed
qed

lemma RegExp_escapeRegExp: "RegExp (escapeRegExp s) = Some (Literal s)"
  by (simp add: RegExp_def escapeRegExp_concat pattern_text_escaped)

lemma substitute_literal:
  "substitute config theme st (i, n) rendered
     = Some (js_replace rendered (Literal (placeholder_of n)) (displayValue config theme st i n))"
  by (simp add: substitute_def RegExp_escapeRegExp)

lemma renderSnippet_total: "\<exists>y. renderSnippet config theme st = Some y"
proof -
  have "\<exists>y. fold (\<lambda>entry acc. case acc of None \<Rightarrow> None
                         | Some rendered \<Rightarrow> substitute config theme st entry rendered)
          es (Some t) = Some y" for es t
  proof (induction es arbitrary: t)
    case Nil
    then show ?case by simp
  next
    case (Cons e es)
    obtain i n where e: "e = (i, n)" by (cases e)
    show ?case using Cons.IH by (simp add: e substitute_literal)
  qed
  then show ?thesis by (simp add: renderSnippet_def)
qed

subsection \<open>Submission\<close>

lemma join_snoc_suffix: "suffix x (join sep (zs @ [x]))"
proof (induction zs rule: induct_list012)
  case 1
  then show ?case by simp
next
  case (2 y)
  then show ?case by (simp add: suffix_def)
next
  case (3 y z zs)
  from "3.IH"(2) obtain pre where "join sep ((z # zs) @ [x]) = pre @ x"
    by (auto simp: suffix_def)
  then show ?case by (auto simp: suffix_def)
qed

lemma frame_content_error:
  assumes "navigating s" and "errorMsg s = Some m" and "m \<noteq> []"
  shows "\<exists>snippet. renderSnippet config theme s = Some snippet
           \<and> frame_content config theme s
               = Some (join newline (filter (\<lambda>x. x \<noteq> [])
                         [snippet, helpText theme s, style_error theme m]))"
proof -
  obtain snippet where r: "renderSnippet config theme s = Some snippet"
    using renderSnippet_total by blast
  have o: "renderSelectOptions config s = []"
    using assms(1) by (simp add: renderSelectOptions_def navigating_def)
  have e: "errorLine theme s = style_error theme m"
    using assms(2,3) by (simp add: errorLine_def)
  show ?thesis
    by (simp add: frame_content_def r o e)
qed

lemma frame_content_error_last:
  assumes "frame_content config theme s
             = Some (join newline (filter (\<lambda>x. x \<noteq> []) [snippet, help, err]))"
    and "err \<noteq> []"
  shows "\<exists>content. frame_content config theme s = Some content \<and> suffix err content"
proof -
  have "filter (\<lambda>x. x \<noteq> []) [snippet, help, err]
          = filter (\<lambda>x. x \<noteq> []) [snippet, help] @ [err]"
    using assms(2) by simp
  then have "suffix err (join newline (filter (\<lambda>x. x \<noteq> []) [snippet, help, err]))"
    by (simp only: join_snoc_suffix)
  then show ?thesis using assms(1) by blast
qed

text \<open>
  C1. In navigating mode ctrl+s succeeds when there is no predicate or the predicate
  returns \<open>true\<close>: the prompt resolves with the value map. When the predicate returns
  \<open>false\<close> the submit fails and the error is \<open>Invalid values provided\<close>; when it
  returns a non-empty string the error is that string. After a failure the status is
  idle, the prompt is still navigating, and the content of the frame is the snippet, the
  help text and the error in the style \<open>style.error\<close> of the theme, which is the end of the
  frame when it is not empty.
\<close>

theorem submit_branches:
  assumes "navigating st" and "st' = userHandler config (CtrlS, l) st"
  shows "(validate config = None \<longrightarrow> resolved st' = Some (values st) \<and> status st' = Done)
       \<and> (\<forall>f. validate config = Some f \<longrightarrow>
            (f (values st) = Bool True \<longrightarrow>
               resolved st' = Some (values st) \<and> status st' = Done)
          \<and> (f (values st) = Bool False \<longrightarrow>
               resolved st' = resolved st
             \<and> errorMsg st' = Some ''Invalid values provided''
             \<and> errorLine theme st' = style_error theme ''Invalid values provided''
             \<and> status st' = Idle \<and> navigating st'
             \<and> (\<exists>snippet. renderSnippet config theme st' = Some snippet
                  \<and> frame_content config theme st'
                      = Some (join newline (filter (\<lambda>x. x \<noteq> [])
                          [snippet, helpText theme st',
                           style_error theme ''Invalid values provided''])))
             \<and> (style_error theme ''Invalid values provided'' \<noteq> [] \<longrightarrow>
                  (\<exists>content. frame_content config theme st' = Some content
                     \<and> suffix (style_error theme ''Invalid values provided'') content)))
          \<and> (\<forall>s. s \<noteq> [] \<and> f (values st) = Str s \<longrightarrow>
               resolved st' = resolved st
             \<and> errorMsg st' = Some s
             \<and> errorLine theme st' = style_error theme s
             \<and> status st' = Idle \<and> navigating st'
             \<and> (\<exists>snippet. renderSnippet config theme st' = Some snippet
                  \<and> frame_content config theme st'
                      = Some (join newline (filter (\<lambda>x. x \<noteq> [])
                          [snippet, helpText theme st', style_error theme s])))
             \<and> (style_error theme s \<noteq> [] \<longrightarrow>
                  (\<exists>content. frame_content config theme st' = Some content
                     \<and> suffix (style_error theme s) content))))"
proof -
  have h: "st' = submit config st"
    using assms by (simp add: navigating_userHandler navigatingHandler_def)
  have cells: "(validate config = None \<longrightarrow> resolved st' = Some (values st) \<and> status st' = Done)
       \<and> (\<forall>f. validate config = Some f \<longrightarrow>
            (f (values st) = Bool True \<longrightarrow>
               resolved st' = Some (values st) \<and> status st' = Done)
          \<and> (f (values st) = Bool False \<longrightarrow>
               resolved st' = resolved st
             \<and> errorMsg st' = Some ''Invalid values provided''
             \<and> errorLine theme st' = style_error theme ''Invalid values provided''
             \<and> status st' = Idle \<and> navigating st')
          \<and> (\<forall>s. s \<noteq> [] \<and> f (values st) = Str s \<longrightarrow>
               resolved st' = resolved st
             \<and> errorMsg st' = Some s
             \<and> errorLine theme st' = style_error theme s
             \<and> status st' = Idle \<and> navigating st'))"
    unfolding h using assms(1)
    by (auto simp: submit_def navigating_def errorLine_def)
  have shown: "(\<exists>snippet. renderSnippet config theme st' = Some snippet
                  \<and> frame_content config theme st'
                      = Some (join newline (filter (\<lambda>x. x \<noteq> [])
                          [snippet, helpText theme st', style_error theme m])))
             \<and> (style_error theme m \<noteq> [] \<longrightarrow>
                  (\<exists>content. frame_content config theme st' = Some content
                     \<and> suffix (style_error theme m) content))"
    if "navigating st'" and "errorMsg st' = Some m" and "m \<noteq> []" for m
    using frame_content_error [OF that, of config theme] frame_content_error_last
    by blast
  have fallback: "''Invalid values provided'' \<noteq> []" by simp
  show ?thesis
    using cells shown [OF _ _ fallback] shown by blast
qed

theorem submit_branches_witness:
  "navigating (init helloConfig)
   \<and> validate helloConfig = None
   \<and> status (userHandler helloConfig (CtrlS, []) (init helloConfig)) = Done
   \<and> resolved (userHandler helloConfig (CtrlS, []) (init helloConfig))
       = Some (values (init helloConfig))
   \<and> nameNonEmpty (values (init (nameConfig nameNonEmpty ''Ann''))) = Bool True
   \<and> status (userHandler (nameConfig nameNonEmpty ''Ann'') (CtrlS, [])
               (init (nameConfig nameNonEmpty ''Ann''))) = Done
   \<and> nameNonEmpty (values (init (nameConfig nameNonEmpty []))) = Bool False
   \<and> errorMsg (userHandler (nameConfig nameNonEmpty []) (CtrlS, [])
                 (init (nameConfig nameNonEmpty [])))
       = Some ''Invalid values provided''
   \<and> frame_content (nameConfig nameNonEmpty []) (snippetTheme plainHost)
        (userHandler (nameConfig nameNonEmpty []) (CtrlS, []) (init (nameConfig nameNonEmpty [])))
       = Some (''Name: '' @ inverse_on @ dim_on @ ''Your name'' @ dim_off @ inverse_off @ newline
               @ ''enter to edit, '' @ arrows @ '' to navigate, ctrl+s to submit'' @ newline
               @ ''Invalid values provided'')
   \<and> nameRequired (values (init (nameConfig nameRequired []))) = Str ''Name is required''
   \<and> errorLine (snippetTheme plainHost) (userHandler (nameConfig nameRequired []) (CtrlS, [])
                             (init (nameConfig nameRequired [])))
       = ''Name is required''
   \<and> frame_content (nameConfig nameRequired []) (snippetTheme plainHost)
        (userHandler (nameConfig nameRequired []) (CtrlS, []) (init (nameConfig nameRequired [])))
       = Some (''Name: '' @ inverse_on @ dim_on @ ''Your name'' @ dim_off @ inverse_off @ newline
               @ ''enter to edit, '' @ arrows @ '' to navigate, ctrl+s to submit'' @ newline
               @ ''Name is required'')
   \<and> suffix ''Name is required''
        (''Name: '' @ inverse_on @ dim_on @ ''Your name'' @ dim_off @ inverse_off @ newline
          @ ''enter to edit, '' @ arrows @ '' to navigate, ctrl+s to submit'' @ newline
          @ ''Name is required'')"
proof -
  let ?t = "snippetTheme plainHost"
  have v1: "validate helloConfig = None" by (simp add: helloConfig_def)
  have r2: "nameNonEmpty (values (init (nameConfig nameNonEmpty ''Ann''))) = Bool True"
    by (simp add: nameNonEmpty_def nameConfig_init_value)
  have r3: "nameNonEmpty (values (init (nameConfig nameNonEmpty []))) = Bool False"
    by (simp add: nameNonEmpty_def nameConfig_init_value)
  have r4: "nameRequired (values (init (nameConfig nameRequired []))) = Str ''Name is required''"
    by (simp add: nameRequired_def nameConfig_init_value)
  have f3: "frame_content (nameConfig nameNonEmpty []) ?t
        (userHandler (nameConfig nameNonEmpty []) (CtrlS, []) (init (nameConfig nameNonEmpty [])))
       = Some (''Name: '' @ inverse_on @ dim_on @ ''Your name'' @ dim_off @ inverse_off @ newline
               @ ''enter to edit, '' @ arrows @ '' to navigate, ctrl+s to submit'' @ newline
               @ ''Invalid values provided'')"
    by code_simp
  have f4: "frame_content (nameConfig nameRequired []) ?t
        (userHandler (nameConfig nameRequired []) (CtrlS, []) (init (nameConfig nameRequired [])))
       = Some (''Name: '' @ inverse_on @ dim_on @ ''Your name'' @ dim_off @ inverse_off @ newline
               @ ''enter to edit, '' @ arrows @ '' to navigate, ctrl+s to submit'' @ newline
               @ ''Name is required'')"
    by code_simp
  note a = submit_branches [where config = helloConfig and st = "init helloConfig"
      and l = "[]" and theme = ?t, OF navigating_init refl]
  note b = submit_branches [where config = "nameConfig nameNonEmpty ''Ann''"
      and st = "init (nameConfig nameNonEmpty ''Ann'')"
      and l = "[]" and theme = ?t, OF navigating_init refl]
  note c = submit_branches [where config = "nameConfig nameNonEmpty []"
      and st = "init (nameConfig nameNonEmpty [])"
      and l = "[]" and theme = ?t, OF navigating_init refl]
  note d = submit_branches [where config = "nameConfig nameRequired []"
      and st = "init (nameConfig nameRequired [])"
      and l = "[]" and theme = ?t, OF navigating_init refl]
  have e: "style_error ?t s = s" for s by (simp add: plainHost_def snippetTheme_def)
  show ?thesis
    using a b c d v1 r2 r3 r4 f3 f4 by (simp add: navigating_init nameConfig_validate e)
qed

subsection \<open>Opening a select field\<close>

lemma findIndex_none: "findIndex P xs < 0 \<longleftrightarrow> (\<forall>x\<in>set xs. \<not> P x)"
  by (induction xs) (auto simp: Let_def)

lemma findIndex_lower: "- 1 \<le> findIndex P xs"
  by (induction xs) (auto simp: Let_def)

lemma findIndex_first:
  "\<exists>x\<in>set xs. P x \<Longrightarrow>
   0 \<le> findIndex P xs \<and> findIndex P xs < int (length xs)
   \<and> P (xs ! nat (findIndex P xs)) \<and> (\<forall>k < nat (findIndex P xs). \<not> P (xs ! k))"
proof (induction xs)
  case Nil
  then show ?case by simp
next
  case (Cons x xs)
  show ?case
  proof (cases "P x")
    case True
    then show ?thesis by simp
  next
    case False
    with Cons.prems have ex: "\<exists>x\<in>set xs. P x" by simp
    from Cons.IH [OF ex] have ih:
      "0 \<le> findIndex P xs" "findIndex P xs < int (length xs)"
      "P (xs ! nat (findIndex P xs))" "\<forall>k < nat (findIndex P xs). \<not> P (xs ! k)"
      by simp_all
    have eq: "findIndex P (x # xs) = findIndex P xs + 1"
      using False ih(1) by (simp add: Let_def)
    have n: "nat (findIndex P xs + 1) = Suc (nat (findIndex P xs))"
      using ih(1) by simp
    show ?thesis
      unfolding eq n using ih False
      by (auto simp: nth_Cons split: nat.splits)
  qed
qed

text \<open>
  C3. When the active field has a non-empty name and a non-empty option list,
  Enter in navigating mode enters selecting mode for it and leaves the value map as it
  is. The selection index is the position of the first normalized option whose stored
  value is the current value of the field, and 0 when no stored value is.
\<close>

theorem enter_opens_select:
  assumes nav: "navigating st"
    and active: "js_index (fieldNames config) (activeFieldIndex st) = Some n"
    and name: "n \<noteq> []"
    and field: "map_of (config_fields config) n = Some f"
    and opts: "options f = Some os" "os \<noteq> []"
    and st': "st' = userHandler config (EnterKey, l) st"
    and cur: "cur = or_empty (values st n)"
  shows "selectingField st' = Some n \<and> \<not> navigating st' \<and> values st' = values st
       \<and> (cur \<in> opt_value ` set (normalizeOptions os) \<longrightarrow>
            0 \<le> selectedOptionIndex st'
          \<and> selectedOptionIndex st' < int (length (normalizeOptions os))
          \<and> opt_value (normalizeOptions os ! nat (selectedOptionIndex st')) = cur
          \<and> (\<forall>k < nat (selectedOptionIndex st'). opt_value (normalizeOptions os ! k) \<noteq> cur))
       \<and> (cur \<notin> opt_value ` set (normalizeOptions os) \<longrightarrow> selectedOptionIndex st' = 0)"
proof -
  let ?opts = "normalizeOptions os"
  let ?i = "findIndex (\<lambda>opt. opt_value opt = cur) ?opts"
  have sel: "isSelectField config n"
    using field opts by (simp add: isSelectField_def)
  have oe: "options_or_empty (map_of (config_fields config) n) = os"
    using field opts by (simp add: options_or_empty_def)
  have h: "st' = st\<lparr> selectingField := Some n,
                     selectedOptionIndex := (if ?i \<ge> 0 then ?i else 0) \<rparr>"
    using nav active name sel oe st' cur
    by (simp add: navigating_userHandler navigatingHandler_def openField_def Let_def)
  have a: "selectingField st' = Some n \<and> \<not> navigating st' \<and> values st' = values st"
    using name by (simp add: h navigating_def)
  have b: "cur \<in> opt_value ` set ?opts \<longrightarrow>
            0 \<le> selectedOptionIndex st'
          \<and> selectedOptionIndex st' < int (length ?opts)
          \<and> opt_value (?opts ! nat (selectedOptionIndex st')) = cur
          \<and> (\<forall>k < nat (selectedOptionIndex st'). opt_value (?opts ! k) \<noteq> cur)"
  proof
    assume "cur \<in> opt_value ` set ?opts"
    then have ex: "\<exists>x\<in>set ?opts. opt_value x = cur" by auto
    from findIndex_first [of ?opts "\<lambda>opt. opt_value opt = cur", OF ex]
    show "0 \<le> selectedOptionIndex st'
          \<and> selectedOptionIndex st' < int (length ?opts)
          \<and> opt_value (?opts ! nat (selectedOptionIndex st')) = cur
          \<and> (\<forall>k < nat (selectedOptionIndex st'). opt_value (?opts ! k) \<noteq> cur)"
      by (simp add: h)
  qed
  have c: "cur \<notin> opt_value ` set ?opts \<longrightarrow> selectedOptionIndex st' = 0"
  proof
    assume "cur \<notin> opt_value ` set ?opts"
    then have "\<forall>x\<in>set ?opts. \<not> opt_value x = cur" by auto
    then have "?i < 0" by (simp add: findIndex_none)
    then show "selectedOptionIndex st' = 0" by (simp add: h)
  qed
  from a b c show ?thesis by blast
qed

lemma colorConfig_lookup:
  "map_of (config_fields colorConfig) ''color''
     = Some (selectField (Some ''green'') [Label ''red'', Label ''green'', Label ''blue''])"
  by (simp add: colorConfig_def)

theorem enter_opens_select_witness:
  "navigating (init colorConfig)
   \<and> js_index (fieldNames colorConfig) (activeFieldIndex (init colorConfig)) = Some ''color''
   \<and> options (selectField (Some ''green'') [Label ''red'', Label ''green'', Label ''blue''])
       = Some [Label ''red'', Label ''green'', Label ''blue'']
   \<and> or_empty (values (init colorConfig) ''color'') = ''green''
   \<and> selectingField (userHandler colorConfig (EnterKey, []) (init colorConfig)) = Some ''color''
   \<and> opt_value (normalizeOptions [Label ''red'', Label ''green'', Label ''blue'']
                  ! nat (selectedOptionIndex (userHandler colorConfig (EnterKey, []) (init colorConfig))))
       = ''green''"
proof -
  have active: "js_index (fieldNames colorConfig) (activeFieldIndex (init colorConfig)) = Some ''color''"
    by (simp add: fieldNames_def colorConfig_def init_def)
  have opts: "options (selectField (Some ''green'') [Label ''red'', Label ''green'', Label ''blue''])
       = Some [Label ''red'', Label ''green'', Label ''blue'']"
    by (simp add: selectField_def)
  have cur: "or_empty (values (init colorConfig) ''color'') = ''green''"
    by (simp add: init_def initialValues_def fieldNames_def colorConfig_def selectField_def textField_def)
  have mem: "''green'' \<in> opt_value ` set (normalizeOptions [Label ''red'', Label ''green'', Label ''blue''])"
    by (simp add: normalizeOptions_def)
  from enter_opens_select [OF navigating_init active _ colorConfig_lookup opts _ refl cur [symmetric], of "[]"] mem
  show ?thesis
    using active opts cur by (simp add: navigating_init)
qed

text \<open>
  A select field whose name is the empty string: \<open>if (fieldName)\<close> is false of it, and
  Enter leaves the prompt navigating.
\<close>

theorem enter_on_nameless_select_counterexample:
  "navigating (init namelessSelectConfig)
   \<and> js_index (fieldNames namelessSelectConfig) (activeFieldIndex (init namelessSelectConfig)) = Some []
   \<and> isSelectField namelessSelectConfig []
   \<and> navigating (userHandler namelessSelectConfig (EnterKey, []) (init namelessSelectConfig))
   \<and> selectingField (userHandler namelessSelectConfig (EnterKey, []) (init namelessSelectConfig)) = None"
  by (simp add: navigating_userHandler navigating_init navigatingHandler_def openField_def
      fieldNames_def namelessSelectConfig_def init_def isSelectField_def selectField_def navigating_def)

subsection \<open>Fields with an empty option list\<close>







subsection \<open>Moving between fields\<close>

lemma userHandler_active_index:
  assumes "\<exists>i. activeFieldIndex st = Num i \<and> 0 \<le> i \<and> i < int (length (fieldNames config))"
  shows "\<exists>i. activeFieldIndex (userHandler config ev st) = Num i
             \<and> 0 \<le> i \<and> i < int (length (fieldNames config))"
proof -
  let ?n = "int (length (fieldNames config))"
  from assms obtain i where i: "activeFieldIndex st = Num i" "0 \<le> i" "i < ?n" by blast
  have pos: "0 < ?n" using i by linarith
  have m: "0 \<le> (i + 1) mod ?n \<and> (i + 1) mod ?n < ?n" using pos by simp
  have r: "sgn (i + 1) * (\<bar>i + 1\<bar> mod \<bar>?n\<bar>) = (i + 1) mod ?n" using i(2) by simp
  show ?thesis
  proof (cases "truthy (selectingField st)")
    case True
    then show ?thesis
      using i by (auto simp: userHandler_def selectingHandler_def Let_def split: option.splits)
  next
    case sel: False
    show ?thesis
    proof (cases "truthy (editingField st)")
      case True
      then show ?thesis
        using i sel by (auto simp: userHandler_def editingHandler_def)
    next
      case False
      have o: "activeFieldIndex (openField config st) = activeFieldIndex st"
        by (simp add: openField_def Let_def)
      have u: "activeFieldIndex (submit config st) = activeFieldIndex st"
        by (simp add: submit_def Let_def)
      show ?thesis
        using i sel False pos m r o u
        by (auto simp: userHandler_def navigatingHandler_def)
    qed
  qed
qed

text \<open>
  With at least one field, the active index is the index of a field in every state the
  prompt reaches.
\<close>

lemma reachable_active_index:
  assumes "fieldNames config \<noteq> []"
  shows "\<exists>i. activeFieldIndex (presses config evs (init config)) = Num i
             \<and> 0 \<le> i \<and> i < int (length (fieldNames config))"
proof -
  have "\<exists>i. activeFieldIndex (presses config evs st) = Num i
             \<and> 0 \<le> i \<and> i < int (length (fieldNames config))"
    if "\<exists>i. activeFieldIndex st = Num i \<and> 0 \<le> i \<and> i < int (length (fieldNames config))"
    for st
    using that
  proof (induction evs arbitrary: st)
    case Nil
    then show ?case by (simp add: presses_def)
  next
    case (Cons ev evs)
    from Cons.IH [OF userHandler_active_index [OF Cons.prems, of ev]]
    show ?case by (simp add: presses_def)
  qed
  moreover have "\<exists>i. activeFieldIndex (init config) = Num i
             \<and> 0 \<le> i \<and> i < int (length (fieldNames config))"
    using assms by (simp add: init_def)
  ultimately show ?thesis by blast
qed

lemma tab_step:
  assumes "navigating st" and "activeFieldIndex st = Num i" and "0 \<le> i"
    and "i < int (length (fieldNames config))"
  shows "userHandler config (TabKey, l) st =
           st\<lparr> activeFieldIndex := Num ((i + 1) mod int (length (fieldNames config))) \<rparr>"
proof -
  have "sgn (i + 1) * (\<bar>i + 1\<bar> mod \<bar>int (length (fieldNames config))\<bar>)
          = (i + 1) mod int (length (fieldNames config))"
    using assms(3) by simp
  moreover have "int (length (fieldNames config)) \<noteq> 0"
    using assms(3,4) by linarith
  ultimately show ?thesis
    using assms by (simp add: navigating_userHandler navigatingHandler_def)
qed

lemma tab_presses:
  assumes "navigating st" and "activeFieldIndex st = Num i" and "0 \<le> i"
    and "i < int (length (fieldNames config))"
    and "map fst evs = replicate k TabKey"
  shows "navigating (presses config evs st)
       \<and> activeFieldIndex (presses config evs st)
           = Num ((i + int k) mod int (length (fieldNames config)))"
  using assms
proof (induction evs arbitrary: st i k)
  case Nil
  then show ?case by (simp add: presses_def)
next
  case (Cons ev evs)
  let ?n = "int (length (fieldNames config))"
  from Cons.prems(5) obtain k' where k: "k = Suc k'" and ev: "fst ev = TabKey"
    and rest: "map fst evs = replicate k' TabKey"
    by (cases k) auto
  obtain l where evl: "ev = (TabKey, l)" using ev by (cases ev) simp
  let ?st = "userHandler config ev st"
  have step: "?st = st\<lparr> activeFieldIndex := Num ((i + 1) mod ?n) \<rparr>"
    unfolding evl by (rule tab_step [OF Cons.prems(1-4)])
  have nav: "navigating ?st"
    using Cons.prems(1) by (simp add: step navigating_def)
  have idx: "activeFieldIndex ?st = Num ((i + 1) mod ?n)" by (simp add: step)
  have pos: "0 < ?n" using Cons.prems(3,4) by linarith
  have lo: "0 \<le> (i + 1) mod ?n" using pos by simp
  have hi: "(i + 1) mod ?n < ?n" using pos by simp
  from Cons.IH [OF nav idx lo hi rest]
  have "navigating (presses config evs ?st)
       \<and> activeFieldIndex (presses config evs ?st) = Num (((i + 1) mod ?n + int k') mod ?n)" .
  moreover have "((i + 1) mod ?n + int k') mod ?n = (i + int k) mod ?n"
    unfolding k by (simp add: mod_add_left_eq add.assoc)
  ultimately show ?case by (simp add: presses_def)
qed

text \<open>
  C5. In navigating mode, from an index \<open>i\<close> of a field, Tab sets the active index to
  \<open>(i + 1) mod fieldCount\<close>, and \<open>fieldCount\<close> presses of Tab bring it back to \<open>i\<close>.
\<close>

theorem tab_wraps:
  assumes "navigating st" and "activeFieldIndex st = Num i" and "0 \<le> i"
    and "i < int (length (fieldNames config))"
    and "map fst evs = replicate (length (fieldNames config)) TabKey"
  shows "activeFieldIndex (userHandler config (TabKey, l) st)
           = Num ((i + 1) mod int (length (fieldNames config)))
       \<and> navigating (presses config evs st)
       \<and> activeFieldIndex (presses config evs st) = Num i"
proof -
  have "(i + int (length (fieldNames config))) mod int (length (fieldNames config)) = i"
    using assms(3,4) by simp
  with tab_presses [OF assms] tab_step [OF assms(1-4), of l]
  show ?thesis by simp
qed

lemma threeFields_names: "fieldNames threeFields = [''field1'', ''field2'', ''field3'']"
  by (simp add: fieldNames_def threeFields_def)

theorem tab_wraps_witness:
  "navigating (userHandler threeFields (DownKey, []) (init threeFields))
   \<and> activeFieldIndex (userHandler threeFields (DownKey, []) (init threeFields)) = Num 1
   \<and> (1::int) < int (length (fieldNames threeFields))
   \<and> map fst [(TabKey, []), (TabKey, ''a''), (TabKey, [])]
       = replicate (length (fieldNames threeFields)) TabKey
   \<and> activeFieldIndex (userHandler threeFields (TabKey, [])
                          (userHandler threeFields (DownKey, []) (init threeFields))) = Num 2
   \<and> activeFieldIndex (presses threeFields [(TabKey, []), (TabKey, ''a''), (TabKey, [])]
                          (userHandler threeFields (DownKey, []) (init threeFields))) = Num 1"
proof -
  let ?st = "userHandler threeFields (DownKey, []) (init threeFields)"
  have st: "?st = (init threeFields)\<lparr> activeFieldIndex := Num 1 \<rparr>"
    by (simp add: navigating_userHandler navigating_init navigatingHandler_def threeFields_names)
       (simp add: init_def)
  have nav: "navigating ?st" unfolding st by (simp add: navigating_def init_def)
  have idx: "activeFieldIndex ?st = Num 1" unfolding st by simp
  have len: "(1::int) < int (length (fieldNames threeFields))" by (simp add: threeFields_names)
  have evs: "map fst [(TabKey, []), (TabKey, ''a''), (TabKey, [])]
       = replicate (length (fieldNames threeFields)) TabKey"
    by (simp add: threeFields_names numeral_3_eq_3)
  from tab_wraps [OF nav idx _ len evs, of "[]"]
  show ?thesis using nav idx len evs by (simp add: threeFields_names)
qed

lemma up_step:
  "navigating st \<Longrightarrow> activeFieldIndex st = Num i \<Longrightarrow>
   userHandler config (UpKey, l) st = st\<lparr> activeFieldIndex := Num (max 0 (i - 1)) \<rparr>"
  by (simp add: navigating_userHandler navigatingHandler_def)

lemma down_step:
  "navigating st \<Longrightarrow> activeFieldIndex st = Num i \<Longrightarrow>
   userHandler config (DownKey, l) st =
     st\<lparr> activeFieldIndex := Num (min (int (length (fieldNames config)) - 1) (i + 1)) \<rparr>"
  by (simp add: navigating_userHandler navigatingHandler_def)

lemma arrow_presses:
  assumes "navigating st" and "activeFieldIndex st = Num i" and "0 \<le> i"
    and "i < int (length (fieldNames config))"
    and "set (map fst evs) \<subseteq> {UpKey, DownKey}"
  shows "navigating (presses config evs st)
       \<and> (\<exists>j. activeFieldIndex (presses config evs st) = Num j
              \<and> 0 \<le> j \<and> j \<le> int (length (fieldNames config)) - 1)"
  using assms
proof (induction evs arbitrary: st i)
  case Nil
  then show ?case by (simp add: presses_def)
next
  case (Cons ev evs)
  let ?n = "int (length (fieldNames config))"
  let ?st = "userHandler config ev st"
  obtain key l where evl: "ev = (key, l)" by (cases ev)
  from Cons.prems(5) evl have key: "key = UpKey \<or> key = DownKey"
    and rest: "set (map fst evs) \<subseteq> {UpKey, DownKey}" by auto
  have pos: "0 < ?n" using Cons.prems(3,4) by linarith
  from key have "navigating ?st
       \<and> (\<exists>j. activeFieldIndex ?st = Num j \<and> 0 \<le> j \<and> j < ?n)"
  proof
    assume "key = UpKey"
    then have eq: "?st = st\<lparr> activeFieldIndex := Num (max 0 (i - 1)) \<rparr>"
      using up_step [OF Cons.prems(1,2)] evl by simp
    have "0 \<le> max 0 (i - 1) \<and> max 0 (i - 1) < ?n"
      using Cons.prems(3,4) pos by linarith
    then show ?thesis
      unfolding eq using Cons.prems(1) by (simp add: navigating_def)
  next
    assume "key = DownKey"
    then have eq: "?st = st\<lparr> activeFieldIndex := Num (min (?n - 1) (i + 1)) \<rparr>"
      using down_step [OF Cons.prems(1,2)] evl by simp
    have "0 \<le> min (?n - 1) (i + 1) \<and> min (?n - 1) (i + 1) < ?n"
      using Cons.prems(3,4) pos by linarith
    then show ?thesis
      unfolding eq using Cons.prems(1) by (simp add: navigating_def)
  qed
  then obtain j where nav: "navigating ?st" and idx: "activeFieldIndex ?st = Num j"
    and lo: "0 \<le> j" and hi: "j < ?n" by blast
  from Cons.IH [OF nav idx lo hi rest] show ?case by (simp add: presses_def)
qed

text \<open>
  C6. In navigating mode, from an index \<open>i\<close> of a field, Up sets the active index to
  \<open>max 0 (i - 1)\<close> and Down sets it to \<open>min (fieldCount - 1) (i + 1)\<close>; after any sequence
  of Up and Down presses the active index is still between 0 and \<open>fieldCount - 1\<close>.
\<close>

theorem arrows_clamp:
  assumes "navigating st" and "activeFieldIndex st = Num i" and "0 \<le> i"
    and "i < int (length (fieldNames config))"
    and "set (map fst evs) \<subseteq> {UpKey, DownKey}"
  shows "activeFieldIndex (userHandler config (UpKey, l) st) = Num (max 0 (i - 1))
       \<and> activeFieldIndex (userHandler config (DownKey, l) st)
           = Num (min (int (length (fieldNames config)) - 1) (i + 1))
       \<and> (\<exists>j. activeFieldIndex (presses config evs st) = Num j
              \<and> 0 \<le> j \<and> j \<le> int (length (fieldNames config)) - 1)"
  using arrow_presses [OF assms] up_step [OF assms(1,2), of config l]
    down_step [OF assms(1,2), of config l]
  by simp

theorem arrows_clamp_witness:
  "navigating (init threeFields)
   \<and> activeFieldIndex (init threeFields) = Num 0
   \<and> (0::int) < int (length (fieldNames threeFields))
   \<and> set (map fst [(DownKey, []), (DownKey, []), (DownKey, []), (UpKey, [])]) \<subseteq> {UpKey, DownKey}
   \<and> activeFieldIndex (userHandler threeFields (UpKey, []) (init threeFields)) = Num 0
   \<and> activeFieldIndex (userHandler threeFields (DownKey, []) (init threeFields)) = Num 1
   \<and> (\<exists>j. activeFieldIndex (presses threeFields
                 [(DownKey, []), (DownKey, []), (DownKey, []), (UpKey, [])] (init threeFields)) = Num j
          \<and> 0 \<le> j \<and> j \<le> 2)"
proof -
  have idx: "activeFieldIndex (init threeFields) = Num 0" by (simp add: init_def)
  have len: "(0::int) < int (length (fieldNames threeFields))" by (simp add: threeFields_names)
  have evs: "set (map fst [(DownKey, []), (DownKey, []), (DownKey, []), (UpKey, [])])
               \<subseteq> {UpKey, DownKey}" by simp
  from arrows_clamp [OF navigating_init idx _ len evs, of "[]"]
  show ?thesis using idx len by (simp add: navigating_init threeFields_names)
qed

subsection \<open>Cancelling an edit\<close>











subsection \<open>The error message\<close>

lemma errorMsg_changed:
  assumes "errorMsg (userHandler config ev st) \<noteq> errorMsg st"
  shows "navigating st \<and> fst ev = CtrlS
       \<and> (case validate config of None \<Rightarrow> Bool True | Some f \<Rightarrow> f (values st)) \<noteq> Bool True"
proof (cases "truthy (selectingField st)")
  case True
  then show ?thesis
    using assms
    by (auto simp: userHandler_def selectingHandler_def Let_def split: option.splits if_splits)
next
  case sel: False
  show ?thesis
  proof (cases "truthy (editingField st)")
    case True
    then show ?thesis
      using assms sel by (auto simp: userHandler_def editingHandler_def split: if_splits)
  next
    case False
    then show ?thesis
      using assms sel
      by (auto simp: userHandler_def navigatingHandler_def submit_def openField_def Let_def
          navigating_def split: if_splits)
  qed
qed

text \<open>
  C2. A submit attempt whose validation succeeds sets the status to done and leaves
  \<open>errorMsg\<close> as it was, also when a failed validation has set it; Up, Down and Tab leave
  it as it was in every mode.
\<close>

theorem errorMsg_sticky:
  shows "(navigating st
          \<and> (case validate config of None \<Rightarrow> Bool True | Some f \<Rightarrow> f (values st)) = Bool True \<longrightarrow>
            status (userHandler config (CtrlS, l) st) = Done
          \<and> errorMsg (userHandler config (CtrlS, l) st) = errorMsg st)
       \<and> (key \<in> {UpKey, DownKey, TabKey} \<longrightarrow>
            errorMsg (userHandler config (key, l) st) = errorMsg st)"
proof -
  have a: "status (userHandler config (CtrlS, l) st) = Done"
    if "navigating st"
      and "(case validate config of None \<Rightarrow> Bool True | Some f \<Rightarrow> f (values st)) = Bool True"
    using that by (simp add: navigating_userHandler navigatingHandler_def submit_def)
  show ?thesis
    using a errorMsg_changed [of config "(CtrlS, l)" st] errorMsg_changed [of config "(key, l)" st]
    by auto
qed

theorem errorMsg_sticky_witness:
  "navigating (presses (nameConfig nameRequired []) retryKeys (init (nameConfig nameRequired [])))
   \<and> (case validate (nameConfig nameRequired []) of None \<Rightarrow> Bool True
       | Some f \<Rightarrow> f (values (presses (nameConfig nameRequired []) retryKeys
                                  (init (nameConfig nameRequired []))))) = Bool True
   \<and> TabKey \<in> {UpKey, DownKey, TabKey}
   \<and> errorMsg (presses (nameConfig nameRequired []) retryKeys (init (nameConfig nameRequired [])))
       = Some ''Name is required''
   \<and> errorMsg (userHandler (nameConfig nameRequired []) (TabKey, [])
        (presses (nameConfig nameRequired []) retryKeys (init (nameConfig nameRequired []))))
       = Some ''Name is required''
   \<and> errorMsg (userHandler (nameConfig nameRequired []) (CtrlS, [])
        (presses (nameConfig nameRequired []) retryKeys (init (nameConfig nameRequired []))))
       = Some ''Name is required''"
proof -
  let ?c = "nameConfig nameRequired []"
  let ?st = "presses ?c retryKeys (init ?c)"
  have nav: "navigating ?st"
    by code_simp
  have ok: "(case validate ?c of None \<Rightarrow> Bool True | Some f \<Rightarrow> f (values ?st)) = Bool True"
    by code_simp
  have err: "errorMsg ?st = Some ''Name is required''"
    by code_simp
  from errorMsg_sticky [of ?st ?c "[]" TabKey] nav ok err
  show ?thesis by simp
qed

text \<open>
  A failed submit sets the message; the name is then typed and committed, and the next
  submit succeeds with the message still set.
\<close>

theorem errorMsg_not_cleared_counterexample:
  "errorMsg (presses (nameConfig nameRequired []) [(CtrlS, [])] (init (nameConfig nameRequired [])))
     = Some ''Name is required''
   \<and> navigating (presses (nameConfig nameRequired []) retryKeys
                   (init (nameConfig nameRequired [])))
   \<and> errorMsg (presses (nameConfig nameRequired []) retryKeys
                 (init (nameConfig nameRequired []))) = Some ''Name is required''
   \<and> nameRequired (values (presses (nameConfig nameRequired []) retryKeys
                              (init (nameConfig nameRequired [])))) = Bool True
   \<and> status (presses (nameConfig nameRequired []) (retryKeys @ [(CtrlS, [])])
               (init (nameConfig nameRequired []))) = Done
   \<and> errorMsg (presses (nameConfig nameRequired []) (retryKeys @ [(CtrlS, [])])
                 (init (nameConfig nameRequired []))) = Some ''Name is required''"
  by code_simp

text \<open>
  C9. In navigating mode ctrl+s sets the status to done exactly when the outcome of the
  validation is the boolean \<open>true\<close>; on any other outcome \<open>done\<close> is not called and the
  status is idle. When the predicate returns the empty string, \<open>errorMsg\<close> is the empty
  string and the frame has no error line. An error line is in the frame only when
  \<open>errorMsg\<close> is a non-empty string.
\<close>

theorem empty_message_fails_silently:
  assumes "navigating st" and "st' = userHandler config (CtrlS, l) st"
    and "r = (case validate config of None \<Rightarrow> Bool True | Some f \<Rightarrow> f (values st))"
  shows "(status st' = Done \<longleftrightarrow> r = Bool True)
       \<and> (r \<noteq> Bool True \<longrightarrow> resolved st' = resolved st \<and> status st' = Idle)
       \<and> (r = Str [] \<longrightarrow>
            errorMsg st' = Some [] \<and> errorLine theme st' = []
          \<and> frame_content config theme st'
              = map_option (\<lambda>snippet. join newline (filter (\<lambda>s. s \<noteq> [])
                   [snippet, renderSelectOptions config st', helpText theme st']))
                 (renderSnippet config theme st'))
       \<and> (errorLine theme st0 \<noteq> [] \<longrightarrow> (\<exists>m. errorMsg st0 = Some m \<and> m \<noteq> []))"
proof -
  have h: "st' = submit config st"
    using assms by (simp add: navigating_userHandler navigatingHandler_def)
  have a: "(status st' = Done \<longleftrightarrow> r = Bool True)
       \<and> (r \<noteq> Bool True \<longrightarrow> resolved st' = resolved st \<and> status st' = Idle)"
    unfolding h using assms(3) by (simp add: submit_def Let_def)
  have b: "errorMsg st' = Some [] \<and> errorLine theme st' = []" if "r = Str []"
    unfolding h using that assms(3) by (simp add: submit_def errorLine_def Let_def)
  have c: "frame_content config theme s
             = map_option (\<lambda>snippet. join newline (filter (\<lambda>s. s \<noteq> [])
                   [snippet, renderSelectOptions config s, helpText theme s]))
                 (renderSnippet config theme s)" if "errorLine theme s = []" for s
    using that by (simp add: frame_content_def split: option.splits)
  have d: "errorLine theme st0 \<noteq> [] \<longrightarrow> (\<exists>m. errorMsg st0 = Some m \<and> m \<noteq> [])"
    by (cases "errorMsg st0") (simp_all add: errorLine_def)
  show ?thesis
    using a b c d by blast
qed

theorem empty_message_fails_silently_witness:
  "navigating (init (nameConfig silentValidator ''Ann''))
   \<and> (case validate (nameConfig silentValidator ''Ann'') of None \<Rightarrow> Bool True
       | Some f \<Rightarrow> f (values (init (nameConfig silentValidator ''Ann'')))) = Str []
   \<and> Str [] \<noteq> Bool True
   \<and> status (userHandler (nameConfig silentValidator ''Ann'') (CtrlS, [])
               (init (nameConfig silentValidator ''Ann''))) = Idle
   \<and> resolved (userHandler (nameConfig silentValidator ''Ann'') (CtrlS, [])
                 (init (nameConfig silentValidator ''Ann''))) = None
   \<and> errorMsg (userHandler (nameConfig silentValidator ''Ann'') (CtrlS, [])
                 (init (nameConfig silentValidator ''Ann''))) = Some []
   \<and> frame_content (nameConfig silentValidator ''Ann'') (snippetTheme plainHost)
        (userHandler (nameConfig silentValidator ''Ann'') (CtrlS, [])
          (init (nameConfig silentValidator ''Ann'')))
       = Some (''Name: '' @ inverse_on @ ''Ann'' @ inverse_off @ newline
               @ ''enter to edit, '' @ arrows @ '' to navigate, ctrl+s to submit'')
   \<and> errorLine (snippetTheme plainHost)
        (userHandler (nameConfig nameRequired []) (CtrlS, []) (init (nameConfig nameRequired [])))
       = ''Name is required''
   \<and> errorMsg (userHandler (nameConfig nameRequired []) (CtrlS, []) (init (nameConfig nameRequired [])))
       = Some ''Name is required''"
proof -
  let ?c = "nameConfig silentValidator ''Ann''"
  let ?st' = "userHandler ?c (CtrlS, []) (init ?c)"
  let ?d = "nameConfig nameRequired []"
  let ?e = "userHandler ?d (CtrlS, []) (init ?d)"
  have r: "(case validate ?c of None \<Rightarrow> Bool True | Some f \<Rightarrow> f (values (init ?c))) = Str []"
    by (simp add: nameConfig_validate silentValidator_def)
  have res: "resolved (init ?c) = None" by (simp add: init_def)
  have body: "map_option (\<lambda>snippet. join newline (filter (\<lambda>s. s \<noteq> [])
                   [snippet, renderSelectOptions ?c ?st', helpText (snippetTheme plainHost) ?st']))
                 (renderSnippet ?c (snippetTheme plainHost) ?st')
       = Some (''Name: '' @ inverse_on @ ''Ann'' @ inverse_off @ newline
               @ ''enter to edit, '' @ arrows @ '' to navigate, ctrl+s to submit'')"
    by code_simp
  have line: "errorLine (snippetTheme plainHost) ?e = ''Name is required''"
    by code_simp
  have msg: "errorMsg ?e = Some ''Name is required''"
    by code_simp
  from empty_message_fails_silently [OF navigating_init refl r [symmetric],
      of "[]" "snippetTheme plainHost" ?e]
  show ?thesis
    using r res body line msg by (simp add: navigating_init)
qed

subsection \<open>Replacing a literal\<close>

lemma getSubstitution_plain:
  "CHR ''$'' \<notin> set r \<Longrightarrow> getSubstitution matched preceding following r = r"
  by (induction matched preceding following r rule: getSubstitution.induct) auto

lemma prefix_overlap:
  assumes "prefix p (a @ p @ rest)" and "a \<noteq> []"
  shows "prefix p (a @ butlast p)"
proof (cases "p = []")
  case True
  then show ?thesis by simp
next
  case False
  then have p: "p = butlast p @ [last p]" by simp
  have len: "length p \<le> length (a @ butlast p)"
    using assms(2) False by (cases a) simp_all
  from assms(1) have "p = take (length p) (a @ p @ rest)"
    by (metis append_eq_conv_conj prefix_def)
  also have "a @ p @ rest = (a @ butlast p) @ (last p # rest)"
    using p by (metis append.assoc append_Cons append_Nil)
  also have "take (length p) ((a @ butlast p) @ (last p # rest)) = take (length p) (a @ butlast p)"
    using len by simp
  finally have "p = take (length p) (a @ butlast p)" .
  then show ?thesis by (metis take_is_prefix)
qed

lemma replace_from_segment:
  assumes "p \<noteq> []" and "\<not> sublist p (s @ butlast p)"
  shows "replace_from (Literal p) r preceding (s @ p @ rest)
           = s @ getSubstitution p (preceding @ s) rest r
               @ replace_from (Literal p) r (preceding @ s @ p) rest"
  using assms(2)
proof (induction s arbitrary: preceding)
  case Nil
  obtain c cs where pc: "p @ rest = c # cs" using assms(1) by (cases p) auto
  have m: "match_at (Literal p) (c # cs) = Some (length p)"
    unfolding pc [symmetric] by simp
  have "replace_from (Literal p) r preceding (c # cs)
          = getSubstitution (take (length p) (c # cs)) preceding (drop (length p) (c # cs)) r
              @ replace_from (Literal p) r (preceding @ take (length p) (c # cs))
                  (drop (length p) (c # cs))"
    using assms(1) by (simp add: m del: match_at.simps)
  then show ?case unfolding pc [symmetric] by simp
next
  case (Cons c s)
  have no: "\<not> prefix p ((c # s) @ p @ rest)"
  proof
    assume "prefix p ((c # s) @ p @ rest)"
    then have "prefix p ((c # s) @ butlast p)" by (rule prefix_overlap) simp
    then have "sublist p ((c # s) @ butlast p)" by (rule prefix_imp_sublist)
    with Cons.prems show False by simp
  qed
  have tl: "\<not> sublist p (s @ butlast p)"
    using Cons.prems by (auto simp: sublist_Cons_right)
  have "replace_from (Literal p) r preceding (c # (s @ p @ rest))
          = c # replace_from (Literal p) r (preceding @ [c]) (s @ p @ rest)"
    using no by simp
  then show ?case using Cons.IH [OF tl, of "preceding @ [c]"] by simp
qed

lemma replace_from_rest:
  assumes "p \<noteq> []" and "\<not> sublist p s"
  shows "replace_from (Literal p) r preceding s = s"
  using assms(2)
proof (induction s arbitrary: preceding)
  case Nil
  then show ?case using assms(1) by simp
next
  case (Cons c s)
  have no: "\<not> prefix p (c # s)"
    using Cons.prems prefix_imp_sublist by blast
  have tl: "\<not> sublist p s"
    using Cons.prems by (auto simp: sublist_Cons_right)
  show ?case using no Cons.IH [OF tl] by simp
qed

text \<open>
  A text cut at the occurrences of \<open>p\<close>: the replacement of \<open>p\<close> by a text without a
  dollar sign puts that text at every cut and keeps the pieces.
\<close>

lemma replace_from_join:
  assumes "p \<noteq> []" and "CHR ''$'' \<notin> set r"
    and "segs \<noteq> []"
    and "\<forall>s \<in> set (butlast segs). \<not> sublist p (s @ butlast p)"
    and "\<not> sublist p (last segs)"
  shows "replace_from (Literal p) r preceding (join p segs) = join r segs"
  using assms(3-5)
proof (induction segs arbitrary: preceding rule: induct_list012)
  case 1
  then show ?case by simp
next
  case (2 x)
  then show ?case using assms(1) by (simp add: replace_from_rest)
next
  case (3 x y xs)
  from "3.prems" have x: "\<not> sublist p (x @ butlast p)" by simp
  from "3.prems" have rest: "\<forall>s \<in> set (butlast (y # xs)). \<not> sublist p (s @ butlast p)"
    "\<not> sublist p (last (y # xs))" by simp_all
  have "replace_from (Literal p) r preceding (x @ p @ join p (y # xs))
          = x @ r @ replace_from (Literal p) r (preceding @ x @ p) (join p (y # xs))"
    by (simp add: replace_from_segment [OF assms(1) x] getSubstitution_plain [OF assms(2)])
  then show ?case
    using "3.IH"(2) [OF _ rest, of "preceding @ x @ p"] by simp
qed

lemma substitute_join:
  assumes "CHR ''$'' \<notin> set (displayValue config theme st i n)"
    and "segs \<noteq> []"
    and "\<forall>s \<in> set (butlast segs). \<not> sublist (placeholder_of n) (s @ butlast (placeholder_of n))"
    and "\<not> sublist (placeholder_of n) (last segs)"
  shows "substitute config theme st (i, n) (join (placeholder_of n) segs)
           = Some (join (displayValue config theme st i n) segs)"
proof -
  have "placeholder_of n \<noteq> []" by (simp add: placeholder_of_def)
  from replace_from_join [OF this assms]
  show ?thesis by (simp add: substitute_literal js_replace_def)
qed

text \<open>
  C8. A render pass is to put the display fragment of a field at every occurrence of its
  placeholder, also when the name has characters that are special in a pattern. The
  pattern built for \<open>field+plus\<close> is the literal placeholder. With the value \<open>$&\<close> the
  display fragment is the value in inverse video, and the frame shows the placeholder in
  inverse video instead: the replacement text is read as a template, in which \<open>$&\<close> is
  the matched text.
\<close>

theorem plus_field_dollar_value:
  "RegExp (escapeRegExp (placeholder_of ''field+plus'')) = Some (Literal ''{{field+plus}}'')
   \<and> displayValue plusConfig (snippetTheme plainHost) (init plusConfig) 0 ''field+plus''
       = inverse_on @ ''$&'' @ inverse_off
   \<and> renderSnippet plusConfig (snippetTheme plainHost) (init plusConfig)
       = Some (inverse_on @ ''{{field+plus}}'' @ inverse_off @ ''!'')
   \<and> renderSnippet plusConfig (snippetTheme plainHost) (init plusConfig)
       \<noteq> Some (inverse_on @ ''$&'' @ inverse_off @ ''!'')"
  by code_simp

text \<open>
  C10. The fields are substituted one after the other in the text rendered so far. The
  value of \<open>greeting\<close>, declared first, contains the placeholder of \<open>name\<close>, which the
  template does not contain; the frame shows the value of \<open>name\<close> inside the value of
  \<open>greeting\<close>.
\<close>

theorem later_placeholder_in_earlier_value:
  "fieldNames nestedConfig = [''greeting'', ''name'']
   \<and> values (init nestedConfig) ''greeting'' = Some (''dear '' @ placeholder_of ''name'')
   \<and> \<not> sublist (placeholder_of ''name'') (template nestedConfig)
   \<and> displayValue nestedConfig (snippetTheme plainHost) (init nestedConfig) 1 ''name'' = ''Ann''
   \<and> substitute nestedConfig (snippetTheme plainHost) (init nestedConfig) (0, ''greeting'')
        (template nestedConfig)
       = Some (''Hello '' @ inverse_on @ ''dear '' @ placeholder_of ''name'' @ inverse_off)
   \<and> renderSnippet nestedConfig (snippetTheme plainHost) (init nestedConfig)
       = Some (''Hello '' @ inverse_on @ ''dear Ann'' @ inverse_off)"
  by code_simp

end
